theory Spec2Isabelle
  imports Main "HOL-Library.Sublist"
begin

section \<open>Strings and arrays of the host language\<close>

text \<open>
  The program is JavaScript (\<^verbatim>\<open>src/app/run.js\<close>). A string is modelled as a
  \<^typ>\<open>string\<close>, an array of strings as a \<^typ>\<open>string list\<close>. A \<^typ>\<open>char\<close>
  stands for the code unit of the same number, so the strings modelled are those over the
  code points U+0000 to U+00FF (ASCII and the Latin-1 supplement). The built-in
  operations the program calls are written out below as they behave on such strings.
\<close>

text \<open>
  \<^verbatim>\<open>s.split(sep)\<close> for a separator that matches exactly one character (the
  regular expression \<^verbatim>\<open>/[\\\/]/\<close>, or the string \<^verbatim>\<open>"."\<close>): the pieces
  between the matches, in order. The result is never empty: the empty string splits into
  one empty piece.
\<close>

fun split_on :: "(char \<Rightarrow> bool) \<Rightarrow> string \<Rightarrow> string list" where
  "split_on sep [] = [[]]"
| "split_on sep (c # cs) =
     (if sep c then [] # split_on sep cs
      else (case split_on sep cs of
              [] \<Rightarrow> [[c]]
            | t # ts \<Rightarrow> (c # t) # ts))"

text \<open>The character class \<^verbatim>\<open>[\\\/]\<close>: a backslash or a slash.\<close>

definition is_slash :: "char \<Rightarrow> bool" where
  "is_slash c \<longleftrightarrow> c = CHR 0x5C \<or> c = CHR ''/''"

text \<open>\<^verbatim>\<open>a.join(sep)\<close> on an array of strings.\<close>

fun join :: "string list \<Rightarrow> string \<Rightarrow> string" where
  "join [] sep = []"
| "join [x] sep = x"
| "join (x # y # ys) sep = x @ sep @ join (y # ys) sep"

text \<open>
  \<^verbatim>\<open>s.toLowerCase()\<close>, code unit by code unit. Among the code points U+0000 to
  U+00FF the ones with a lower-case mapping are the letters \<^verbatim>\<open>A\<close> to \<^verbatim>\<open>Z\<close>
  (65 to 90) and the Latin-1 capitals U+00C0 to U+00DE (192 to 222) but for the
  multiplication sign U+00D7 (215); each is mapped to the code point 32 above it. Every
  other one is left as it is, the sharp s U+00DF and the y with diaeresis U+00FF among
  them.
\<close>

definition lower_char :: "char \<Rightarrow> char" where
  "lower_char c =
     (let n = (of_char c :: nat)
      in if (65 \<le> n \<and> n \<le> 90) \<or> (192 \<le> n \<and> n \<le> 214) \<or> (216 \<le> n \<and> n \<le> 222)
         then char_of (n + 32) else c)"

definition toLowerCase :: "string \<Rightarrow> string" where
  "toLowerCase s = map lower_char s"

text \<open>
  \<^verbatim>\<open>s.replace(pat, rep)\<close> with a string pattern: only the first occurrence of
  \<^verbatim>\<open>pat\<close> is replaced. (The replacement strings of the program hold no
  \<^verbatim>\<open>$\<close> pattern.)
\<close>

fun replace :: "string \<Rightarrow> string \<Rightarrow> string \<Rightarrow> string" where
  "replace [] pat rep = (if pat = [] then rep else [])"
| "replace (c # cs) pat rep =
     (if prefix pat (c # cs) then rep @ drop (length pat) (c # cs)
      else c # replace cs pat rep)"

text \<open>
  \<^verbatim>\<open>file.match(/^\.[^\.\/\\]/)\<close>: the name starts with a dot, and a second
  character follows that is not a dot, a slash or a backslash.
\<close>

fun hidden :: "string \<Rightarrow> bool" where
  "hidden (c # d # cs) \<longleftrightarrow>
     c = CHR ''.'' \<and> d \<noteq> CHR ''.'' \<and> d \<noteq> CHR ''/'' \<and> d \<noteq> CHR 0x5C"
| "hidden cs \<longleftrightarrow> False"

section \<open>FilePath\<close>

text \<open>
  The object built by \<^verbatim>\<open>new FilePath(absPath, separator)\<close>: its four fields, under
  the names the source gives them.
\<close>

record filepath =
  slash :: string
  root :: string
  path :: "string list"
  "file" :: string

text \<open>
  \<^verbatim>\<open>
  FilePath.prototype.resolvePath = function() {
      var resolvedPath = [];
      for (var i = 0; i < this.path.length; i++) {
          if (this.path[i] == "..") resolvedPath.pop();
          else if (this.path[i] != ".") resolvedPath.push(this.path[i]);
      }
      return resolvedPath;
  }
  \<close>
  The loop over \<^verbatim>\<open>this.path\<close> is \<open>resolve_loop\<close>, with \<^verbatim>\<open>resolvedPath\<close>
  as the accumulator. \<^verbatim>\<open>pop()\<close> on an empty array leaves it empty, as
  \<^const>\<open>butlast\<close> does.
\<close>

fun resolve_loop :: "string list \<Rightarrow> string list \<Rightarrow> string list" where
  "resolve_loop [] resolvedPath = resolvedPath"
| "resolve_loop (p # ps) resolvedPath =
     (if p = ''..'' then resolve_loop ps (butlast resolvedPath)
      else if p \<noteq> ''.'' then resolve_loop ps (resolvedPath @ [p])
      else resolve_loop ps resolvedPath)"

definition resolvePath :: "filepath \<Rightarrow> string list" where
  "resolvePath this = resolve_loop (path this) []"

text \<open>
  \<^verbatim>\<open>
  FilePath = function(absPath, separator) {
      this.slash =  separator || "/";
      this.root = this.slash;
      this.path = [];
      this.file = "";

      var parts = absPath.split(/[\\\/]/);
      if (parts) {
          if (parts.length) this.root = parts.shift() + this.slash;
          if (parts.length) this.file = parts.pop();
          if (parts.length) this.path = parts;
      }

      this.path = this.resolvePath();
  }
  \<close>
  The constructor, on a string \<^verbatim>\<open>absPath\<close>. \<^verbatim>\<open>separator || "/"\<close> takes the
  default for a missing argument (\<^const>\<open>None\<close>) and for the empty string. An array
  is never falsy, so \<^verbatim>\<open>if (parts)\<close> always holds; \<^verbatim>\<open>shift()\<close> and
  \<^verbatim>\<open>pop()\<close> are each guarded by \<^verbatim>\<open>parts.length\<close>.
\<close>

definition FilePath :: "string \<Rightarrow> string option \<Rightarrow> filepath" where
  "FilePath absPath separator =
     (let sl = (case separator of None \<Rightarrow> ''/'' | Some s \<Rightarrow> if s = [] then ''/'' else s);
          this0 = \<lparr>slash = sl, root = sl, path = [], file = []\<rparr>;
          parts0 = split_on is_slash absPath;
          (this1, parts1) =
            (if length parts0 \<noteq> 0 then (this0\<lparr>root := hd parts0 @ slash this0\<rparr>, tl parts0)
             else (this0, parts0));
          (this2, parts2) =
            (if length parts1 \<noteq> 0 then (this1\<lparr>file := last parts1\<rparr>, butlast parts1)
             else (this1, parts1));
          this3 = (if length parts2 \<noteq> 0 then this2\<lparr>path := parts2\<rparr> else this2)
      in this3\<lparr>path := resolvePath this3\<rparr>)"

text \<open>
  \<^verbatim>\<open>
  FilePath.prototype.toDir = function() {
      if (this.file) this.file = "";
      return this;
  }
  FilePath.prototype.upDir = function() {
      this.toDir();
      if (this.path.length) this.path.pop();
      return this;
  }
  FilePath.prototype.toString = function() {
      return this.root
          + this.path.join(this.slash)
          + ((this.path.length > 0)? this.slash : "")
          + this.file;
  }
  \<close>
  \<^verbatim>\<open>toDir\<close> and \<^verbatim>\<open>upDir\<close> each mutate \<^verbatim>\<open>this\<close> and return it: the
  model returns the object as it is after the call. \<^verbatim>\<open>toString\<close> assigns nothing.
\<close>

definition toDir :: "filepath \<Rightarrow> filepath" where
  "toDir this = (if file this \<noteq> [] then this\<lparr>file := []\<rparr> else this)"

definition upDir :: "filepath \<Rightarrow> filepath" where
  "upDir this =
     (let this1 = toDir this
      in if length (path this1) \<noteq> 0 then this1\<lparr>path := butlast (path this1)\<rparr> else this1)"

definition toString :: "filepath \<Rightarrow> string" where
  "toString this =
     root this
     @ join (path this) (slash this)
     @ (if length (path this) > 0 then slash this else [])
     @ file this"

text \<open>\<^verbatim>\<open>FilePath.fileExtension\<close>: \<^verbatim>\<open>filename.split(".").pop().toLowerCase()\<close>.\<close>

definition fileExtension :: "string \<Rightarrow> string" where
  "fileExtension filename = toLowerCase (last (split_on (\<lambda>c. c = CHR ''.'') filename))"

text \<open>
  The constructor reads \<^verbatim>\<open>absPath.split\<close> first of all, which raises a
  \<^verbatim>\<open>TypeError\<close> when the argument is missing (\<^const>\<open>None\<close>); on a string
  nothing in the constructor can raise.
\<close>

datatype js_error = TypeError

definition new_FilePath :: "string option \<Rightarrow> string option \<Rightarrow> js_error + filepath" where
  "new_FilePath absPath separator =
     (case absPath of
        None \<Rightarrow> Inl TypeError
      | Some s \<Rightarrow> Inr (FilePath s separator))"

subsection \<open>What the specification says of a path\<close>

text \<open>The segment list holds neither of the two markers.\<close>

definition no_dot_markers :: "string list \<Rightarrow> bool" where
  "no_dot_markers segments \<longleftrightarrow> ''.'' \<notin> set segments \<and> ''..'' \<notin> set segments"

text \<open>
  A normalized path value: the separator is not empty, the root ends with it, and the
  segments are resolved.
\<close>

definition normalized :: "filepath \<Rightarrow> bool" where
  "normalized this \<longleftrightarrow>
     slash this \<noteq> [] \<and> suffix (slash this) (root this) \<and> no_dot_markers (path this)"

text \<open>The states a caller can reach: construction, then any run of the two mutators.\<close>

inductive reachable :: "filepath \<Rightarrow> bool" where
  construct: "reachable (FilePath absPath separator)"
| toDir: "reachable this \<Longrightarrow> reachable (toDir this)"
| upDir: "reachable this \<Longrightarrow> reachable (upDir this)"

section \<open>IO.ls\<close>

text \<open>
  The file system is what \<^verbatim>\<open>fs.statSync\<close> and \<^verbatim>\<open>fs.readdirSync\<close> answer
  for a path string: each either throws (\<^const>\<open>Inl\<close>) or returns. Of the status
  only \<^verbatim>\<open>isDirectory()\<close> is read.
\<close>

datatype fs_error = ENOENT | ENOTDIR | EACCES

record filesystem =
  statSync :: "string \<Rightarrow> fs_error + bool"
  readdirSync :: "string \<Rightarrow> fs_error + string list"

text \<open>
  \<^verbatim>\<open>
  ls: function(dir, recurse, _allFiles, _path) {
      if (_path === undefined) { // initially
          var _allFiles = [];
          var _path = [dir];
      }
      if (_path.length == 0) return _allFiles;
      if (recurse === undefined) recurse = 1;

      var s = fs.statSync(dir);
      if (!s.isDirectory()) return [dir];
      var files = fs.readdirSync(dir);

      for (var f = 0; f < files.length; f++) {
          var file = files[f];
          if (file.match(/^\.[^\.\/\\]/)) continue; // skip dot files

          if ((fs.statSync(_path.join("/")+"/"+file).isDirectory())) { // it's a directory
              _path.push(file);
              if (_path.length-1 < recurse) IO.ls(_path.join("/"), recurse, _allFiles, _path);
              _path.pop();
          }
          else {
              _allFiles.push((_path.join("/")+"/"+file).replace("//", "/"));
          }
      }

      return _allFiles;
  }
  \<close>
  \<open>IO_ls\<close> is \<^verbatim>\<open>IO.ls(dir, recurse, _allFiles, _path)\<close> as its recursive calls
  see it, with all four arguments given, \<^verbatim>\<open>recurse\<close> a whole number. The two arrays \<^verbatim>\<open>_allFiles\<close> and \<^verbatim>\<open>_path\<close> are
  shared between a call and the calls it makes, so they are threaded through as a state
  \<open>(allFiles, pth)\<close>: \<open>IO_ls\<close> answers the returned array together with that
  state, and \<open>ls_loop\<close>, the \<^verbatim>\<open>for\<close> loop over the entries read, answers
  the state. The caller drops what a recursive call returns and reads the shared state.
  An exception of the file system ends the whole traversal.
\<close>

function IO_ls :: "filesystem \<Rightarrow> int \<Rightarrow> string \<Rightarrow> string list \<times> string list
                      \<Rightarrow> fs_error + (string list \<times> string list \<times> string list)"
  and ls_loop :: "filesystem \<Rightarrow> int \<Rightarrow> string list \<Rightarrow> string list \<times> string list
                      \<Rightarrow> fs_error + (string list \<times> string list)"
where
  "IO_ls fs recurse dir (allFiles, pth) =
     (if length pth = 0 then Inr (allFiles, allFiles, pth)
      else (case statSync fs dir of
        Inl e \<Rightarrow> Inl e
      | Inr isDirectory \<Rightarrow>
          if \<not> isDirectory then Inr ([dir], allFiles, pth)
          else (case readdirSync fs dir of
            Inl e \<Rightarrow> Inl e
          | Inr files \<Rightarrow>
              (case ls_loop fs recurse files (allFiles, pth) of
                 Inl e \<Rightarrow> Inl e
               | Inr (allFiles', pth') \<Rightarrow> Inr (allFiles', allFiles', pth')))))"
| "ls_loop fs recurse [] st = Inr st"
| "ls_loop fs recurse (f # files) (allFiles, pth) =
     (if hidden f then ls_loop fs recurse files (allFiles, pth)
      else (case statSync fs (join pth ''/'' @ ''/'' @ f) of
        Inl e \<Rightarrow> Inl e
      | Inr isDirectory \<Rightarrow>
          if isDirectory then
            (let pth1 = pth @ [f] in
             if int (length pth1) - 1 < recurse then
               (case IO_ls fs recurse (join pth1 ''/'') (allFiles, pth1) of
                  Inl e \<Rightarrow> Inl e
                | Inr (_, allFiles2, pth2) \<Rightarrow> ls_loop fs recurse files (allFiles2, butlast pth2))
             else ls_loop fs recurse files (allFiles, butlast pth1))
          else ls_loop fs recurse files
                 (allFiles @ [replace (join pth ''/'' @ ''/'' @ f) ''//'' ''/''], pth)))"
  by pat_completeness auto

text \<open>
  The loop goes on with the \<^verbatim>\<open>_path\<close> a recursive call hands back, so that the
  recursion ends only because a call leaves \<^verbatim>\<open>_path\<close> as it found it: each
  \<^verbatim>\<open>push\<close> is undone by the \<^verbatim>\<open>pop\<close> after it.
\<close>

lemma pth_kept:
  "IO_ls_ls_loop_dom (Inl (fs, recurse, dir, st)) \<Longrightarrow>
     IO_ls fs recurse dir st = Inr (r, st') \<Longrightarrow> snd st' = snd st"
  "IO_ls_ls_loop_dom (Inr (fs, recurse, files, st)) \<Longrightarrow>
     ls_loop fs recurse files st = Inr st'' \<Longrightarrow> snd st'' = snd st"
proof (induction fs recurse dir st and fs recurse files st arbitrary: r st' and st''
    rule: IO_ls_ls_loop.pinduct)
  case (1 fs recurse dir allFiles pth)
  then show ?case
    by (auto simp: IO_ls.psimps split: if_splits sum.splits prod.splits)
next
  case (2 fs recurse st)
  then show ?case by (simp add: ls_loop.psimps)
next
  case (3 fs recurse f files allFiles pth)
  then show ?case
    by (auto simp: ls_loop.psimps Let_def split: if_splits sum.splits prod.splits)
qed

text \<open>
  A call goes one level deeper only while \<^verbatim>\<open>_path.length - 1 < recurse\<close>, and the
  loop walks down the entries: the traversal always ends.
\<close>

termination IO_ls
proof (relation "measures
    [\<lambda>x. case x of Inl (fs, recurse, dir, a, p) \<Rightarrow> nat (recurse + 1 - int (length p))
               | Inr (fs, recurse, files, a, p) \<Rightarrow> nat (recurse + 1 - int (length p)),
     \<lambda>x. case x of Inl _ \<Rightarrow> 1 | Inr _ \<Rightarrow> 0,
     \<lambda>x. case x of Inl _ \<Rightarrow> 0 | Inr (fs, recurse, files, st) \<Rightarrow> length files]",
    goal_cases)
  case 1
  show ?case by simp
next
  case 2
  then show ?case by simp
next
  case 3
  then show ?case by simp
next
  case 4
  then show ?case by simp
next
  case 5
  then show ?case by (auto dest!: pth_kept(1))
next
  case 6
  then show ?case by simp
next
  case 7
  then show ?case by simp
qed

declare IO_ls.simps [simp del]

text \<open>\<^verbatim>\<open>if (recurse === undefined) recurse = 1\<close>.\<close>

definition default_recurse :: "int option \<Rightarrow> int" where
  "default_recurse recurse = (case recurse of None \<Rightarrow> 1 | Some r \<Rightarrow> r)"

text \<open>
  \<^verbatim>\<open>IO.ls(dir, recurse)\<close> as a caller writes it, the two private arguments left
  undefined: \<^verbatim>\<open>_allFiles\<close> starts empty and \<^verbatim>\<open>_path\<close> as \<^verbatim>\<open>[dir]\<close>.
\<close>

definition ls :: "filesystem \<Rightarrow> string \<Rightarrow> int option \<Rightarrow> fs_error + string list" where
  "ls fs dir recurse =
     (case IO_ls fs (default_recurse recurse) dir ([], [dir]) of
        Inl e \<Rightarrow> Inl e
      | Inr (result, _) \<Rightarrow> Inr result)"

subsection \<open>What the specification says of a traversal\<close>

text \<open>
  The directories reached within the depth bound, each as the chain of names that leads
  to it: the start directory, and below a reached directory every entry that is not
  hidden and is itself a directory, as long as the chain is shorter than the bound.
\<close>

inductive visits :: "filesystem \<Rightarrow> int \<Rightarrow> string \<Rightarrow> string list \<Rightarrow> bool"
  for fs :: filesystem and recurse :: int and dir :: string
where
  start: "statSync fs dir = Inr True \<Longrightarrow> visits fs recurse dir [dir]"
| descend: "visits fs recurse dir pth \<Longrightarrow> readdirSync fs (join pth ''/'') = Inr files \<Longrightarrow>
            f \<in> set files \<Longrightarrow> \<not> hidden f \<Longrightarrow>
            statSync fs (join pth ''/'' @ ''/'' @ f) = Inr True \<Longrightarrow>
            int (length pth) < recurse \<Longrightarrow> visits fs recurse dir (pth @ [f])"

text \<open>
  The file system fails with \<open>e\<close> at a directory: reading it fails, or the status of
  one of its entries that are not hidden does.
\<close>

definition raises_at :: "filesystem \<Rightarrow> string list \<Rightarrow> fs_error \<Rightarrow> bool" where
  "raises_at fs pth e \<longleftrightarrow>
     (case readdirSync fs (join pth ''/'') of
        Inl e' \<Rightarrow> e' = e
      | Inr files \<Rightarrow> \<exists>f\<in>set files. \<not> hidden f \<and> statSync fs (join pth ''/'' @ ''/'' @ f) = Inl e)"

text \<open>A path of the result: a plain file, not hidden, that a reached directory holds.\<close>

definition listed :: "filesystem \<Rightarrow> int \<Rightarrow> string \<Rightarrow> string \<Rightarrow> bool" where
  "listed fs recurse dir x \<longleftrightarrow>
     (\<exists>pth files f. visits fs recurse dir pth \<and> readdirSync fs (join pth ''/'') = Inr files \<and>
        f \<in> set files \<and> \<not> hidden f \<and> statSync fs (join pth ''/'' @ ''/'' @ f) = Inr False \<and>
        x = replace (join pth ''/'' @ ''/'' @ f) ''//'' ''/'')"

definition sound_outcome ::
  "filesystem \<Rightarrow> int \<Rightarrow> string \<Rightarrow> fs_error + string list \<Rightarrow> bool" where
  "sound_outcome fs recurse dir res \<longleftrightarrow>
     (case res of
        Inl e \<Rightarrow> \<exists>p. visits fs recurse dir p \<and> raises_at fs p e
      | Inr a \<Rightarrow> \<forall>x\<in>set a. listed fs recurse dir x)"

subsection \<open>Two file systems\<close>

text \<open>
  The tree \<^verbatim>\<open>root/{x.js, sub/{y.js, .hidden.js}}\<close>; the order in which a directory
  is read is left open.
\<close>

definition tree_fs :: "string list \<Rightarrow> string list \<Rightarrow> filesystem" where
  "tree_fs rootEntries subEntries =
     \<lparr>statSync = (\<lambda>p. if p = ''root'' \<or> p = ''root/sub'' then Inr True
                     else if p = ''root/x.js'' \<or> p = ''root/sub/y.js'' \<or> p = ''root/sub/.hidden.js''
                     then Inr False else Inl ENOENT),
      readdirSync = (\<lambda>p. if p = ''root'' then Inr rootEntries
                        else if p = ''root/sub'' then Inr subEntries
                        else if p = ''root/x.js'' \<or> p = ''root/sub/y.js'' \<or> p = ''root/sub/.hidden.js''
                        then Inl ENOTDIR else Inl ENOENT)\<rparr>"

text \<open>
  A directory \<^verbatim>\<open>root\<close> whose one entry is a symbolic link to a file that is gone:
  the directory lists the link, and the status of the link (which follows it) fails.
\<close>

definition dangling_fs :: filesystem where
  "dangling_fs =
     \<lparr>statSync = (\<lambda>p. if p = ''root'' then Inr True else Inl ENOENT),
      readdirSync = (\<lambda>p. if p = ''root'' then Inr [''gone''] else Inl ENOENT)\<rparr>"

section \<open>Facts about the string operations\<close>

lemma split_on_not_Nil: "split_on p s \<noteq> []"
  by (induction s) (auto split: list.splits)

lemma split_on_append_sep: "p c \<Longrightarrow> split_on p (a @ c # b) = split_on p a @ split_on p b"
  by (induction a) (auto split: list.splits simp: split_on_not_Nil)

lemma split_on_no_sep: "\<forall>x\<in>set b. \<not> p x \<Longrightarrow> split_on p b = [b]"
  by (induction b) auto

lemma last_split_on:
  "\<forall>x\<in>set b. \<not> p x \<Longrightarrow> p c \<Longrightarrow> last (split_on p (a @ c # b)) = b"
  by (simp add: split_on_append_sep split_on_no_sep split_on_not_Nil)

lemma join_snoc: "pth \<noteq> [] \<Longrightarrow> join (pth @ [f]) sep = join pth sep @ sep @ f"
  by (induction pth sep rule: join.induct) auto

lemma join_concat:
  "join xs sep @ (if xs = [] then [] else sep) = concat (map (\<lambda>d. d @ sep) xs)"
  by (induction xs sep rule: join.induct) auto

section \<open>Path normalisation\<close>

lemma resolve_loop_no_dots:
  "no_dot_markers acc \<Longrightarrow> no_dot_markers (resolve_loop ps acc)"
proof (induction ps arbitrary: acc)
  case Nil
  then show ?case by simp
next
  case (Cons p ps)
  have "no_dot_markers (butlast acc)"
    using Cons.prems by (auto simp: no_dot_markers_def dest: in_set_butlastD)
  moreover have "p \<noteq> ''.'' \<Longrightarrow> p \<noteq> ''..'' \<Longrightarrow> no_dot_markers (acc @ [p])"
    using Cons.prems by (simp add: no_dot_markers_def)
  ultimately show ?case using Cons by simp
qed

lemma resolve_loop_append:
  "resolve_loop (xs @ ys) acc = resolve_loop ys (resolve_loop xs acc)"
  by (induction xs arbitrary: acc) auto

lemma slash_FilePath:
  "slash (FilePath s sep) = (case sep of None \<Rightarrow> ''/'' | Some t \<Rightarrow> if t = [] then ''/'' else t)"
  by (simp add: FilePath_def Let_def split: prod.splits option.splits)

lemma root_FilePath:
  "root (FilePath s sep) = hd (split_on is_slash s) @ slash (FilePath s sep)"
  by (simp add: FilePath_def Let_def split_on_not_Nil split: prod.splits option.splits)

lemma path_FilePath:
  "path (FilePath s sep) = resolve_loop (butlast (tl (split_on is_slash s))) []"
  by (simp add: FilePath_def Let_def resolvePath_def split_on_not_Nil
      split: prod.splits option.splits)

lemma file_FilePath:
  "file (FilePath s sep) =
     (if tl (split_on is_slash s) = [] then [] else last (tl (split_on is_slash s)))"
  by (simp add: FilePath_def Let_def split_on_not_Nil split: prod.splits option.splits)

lemma no_dot_markers_FilePath: "no_dot_markers (path (FilePath s sep))"
  unfolding path_FilePath by (rule resolve_loop_no_dots) (simp add: no_dot_markers_def)

lemma no_dot_markers_toDir: "no_dot_markers (path this) \<Longrightarrow> no_dot_markers (path (toDir this))"
  by (simp add: toDir_def)

lemma no_dot_markers_upDir: "no_dot_markers (path this) \<Longrightarrow> no_dot_markers (path (upDir this))"
  by (auto simp: upDir_def toDir_def Let_def no_dot_markers_def dest: in_set_butlastD)

lemma normalized_FilePath: "normalized (FilePath s sep)"
  by (auto simp: normalized_def no_dot_markers_FilePath root_FilePath slash_FilePath suffix_def
      split: option.splits)

lemma normalized_toDir: "normalized this \<Longrightarrow> normalized (toDir this)"
  by (simp add: normalized_def toDir_def)

lemma normalized_upDir: "normalized this \<Longrightarrow> normalized (upDir this)"
  using no_dot_markers_upDir[of this]
  by (simp add: normalized_def upDir_def toDir_def Let_def)

text \<open>
  C2. Whatever the input string and the separator, the segment list of the constructed
  path holds neither \<^verbatim>\<open>.\<close> nor \<^verbatim>\<open>..\<close>. While the segments are resolved, a
  \<^verbatim>\<open>..\<close> met when no accepted segment is left changes nothing: the result is the
  one of the same list without that marker. \<^const>\<open>toDir\<close> and \<^const>\<open>upDir\<close> keep
  a segment list free of the two markers.
\<close>

theorem segments_hold_no_dot_markers:
  "no_dot_markers (path (FilePath absPath separator)) \<and>
   (resolvePath (this\<lparr>path := raw\<rparr>) = [] \<longrightarrow>
      resolvePath (this\<lparr>path := raw @ ''..'' # rest\<rparr>) = resolvePath (this\<lparr>path := raw @ rest\<rparr>)) \<and>
   (no_dot_markers (path this) \<longrightarrow>
      no_dot_markers (path (toDir this)) \<and> no_dot_markers (path (upDir this)))"
  by (simp add: no_dot_markers_FilePath no_dot_markers_toDir no_dot_markers_upDir
      resolvePath_def resolve_loop_append)

theorem segments_hold_no_dot_markers_witness:
  "path (FilePath ''/../a/./b/../c/f.txt'' None) = [''a'', ''c''] \<and>
   resolvePath (FilePath ''x'' None\<lparr>path := [''x'', ''..'']\<rparr>) = [] \<and>
   resolvePath (FilePath ''x'' None\<lparr>path := [''x'', ''..''] @ ''..'' # [''y'']\<rparr>) = [''y''] \<and>
   no_dot_markers (path (FilePath ''/../a/./b/../c/f.txt'' None)) \<and>
   no_dot_markers (path (toDir (FilePath ''/../a/./b/../c/f.txt'' None))) \<and>
   no_dot_markers (path (upDir (FilePath ''/../a/./b/../c/f.txt'' None)))"
proof -
  have p: "path (FilePath ''/../a/./b/../c/f.txt'' None) = [''a'', ''c'']"
    by (simp add: FilePath_def resolvePath_def is_slash_def Let_def)
  have r: "resolvePath (FilePath ''x'' None\<lparr>path := [''x'', ''..'']\<rparr>) = []"
    by (simp add: resolvePath_def)
  have n: "no_dot_markers (path (FilePath ''/../a/./b/../c/f.txt'' None))"
    unfolding p by (simp add: no_dot_markers_def)
  show ?thesis
    using segments_hold_no_dot_markers [where absPath = "''/../a/./b/../c/f.txt''"
        and separator = None and this = "FilePath ''x'' None" and raw = "[''x'', ''..'']"
        and rest = "[''y'']"]
      segments_hold_no_dot_markers [where absPath = "''/../a/./b/../c/f.txt''"
        and separator = None and this = "FilePath ''/../a/./b/../c/f.txt'' None"
        and raw = "[]" and rest = "[]"] p r n
    by (simp add: resolvePath_def)
qed

text \<open>
  C3. Built from \<^verbatim>\<open>/a/b/../c/file.txt\<close> with the default separator, the path prints
  as \<^verbatim>\<open>/a/c/file.txt\<close>; built from \<^verbatim>\<open>/a/./b/file.txt\<close>, as
  \<^verbatim>\<open>/a/b/file.txt\<close>.
\<close>

theorem FilePath_toString_examples:
  "toString (FilePath ''/a/b/../c/file.txt'' None) = ''/a/c/file.txt'' \<and>
   toString (FilePath ''/a/./b/file.txt'' None) = ''/a/b/file.txt''"
  by (simp add: toString_def FilePath_def resolvePath_def is_slash_def Let_def)

text \<open>
  C4. In every state reached by construction, \<^const>\<open>toDir\<close> and \<^const>\<open>upDir\<close>,
  \<^const>\<open>toString\<close> is the root, then the segments joined by the separator, then the
  separator once more if there is a segment, then the file name; said otherwise, the root,
  each segment followed by the separator, and the file name. It reads the fields and
  resolves nothing: a marker put into the segment list from outside is printed as it
  stands. (The segment list of a reached state holds no marker.)
\<close>

theorem toString_reconstructs:
  "reachable this \<Longrightarrow>
     toString this = root this @ join (path this) (slash this)
                     @ (if path this \<noteq> [] then slash this else []) @ file this \<and>
     toString this = root this @ concat (map (\<lambda>d. d @ slash this) (path this)) @ file this \<and>
     toString (this\<lparr>path := path this @ [''..'']\<rparr>)
       = root this @ concat (map (\<lambda>d. d @ slash this) (path this)) @ ''..'' @ slash this
         @ file this \<and>
     no_dot_markers (path this)"
proof -
  assume r: "reachable this"
  have c: "join xs (slash this) @ (if xs = [] then [] else slash this)
             = concat (map (\<lambda>d. d @ slash this) xs)" for xs
    by (rule join_concat)
  have "toString this = root this @ join (path this) (slash this)
                     @ (if path this \<noteq> [] then slash this else []) @ file this"
    by (simp add: toString_def)
  moreover have "toString this
      = root this @ concat (map (\<lambda>d. d @ slash this) (path this)) @ file this"
    using c[of "path this"] by (auto simp: toString_def)
  moreover have "toString (this\<lparr>path := path this @ [''..'']\<rparr>)
       = root this @ concat (map (\<lambda>d. d @ slash this) (path this)) @ ''..'' @ slash this
         @ file this"
    using c[of "path this @ [''..'']"] by (auto simp: toString_def)
  moreover have "no_dot_markers (path this)"
    using r
    by (induction rule: reachable.induct)
      (simp_all add: no_dot_markers_FilePath no_dot_markers_toDir no_dot_markers_upDir)
  ultimately show ?thesis by simp
qed

theorem toString_reconstructs_witness:
  "reachable (upDir (toDir (FilePath ''/a/./b/c.txt'' (Some ''|'')))) \<and>
   toString (upDir (toDir (FilePath ''/a/./b/c.txt'' (Some ''|'')))) = ''|a|'' \<and>
   toString (FilePath ''/a/./b/c.txt'' (Some ''|'')) = ''|a|b|c.txt''"
proof -
  have r: "reachable (upDir (toDir (FilePath ''/a/./b/c.txt'' (Some ''|''))))"
    by (intro reachable.intros)
  have r': "reachable (FilePath ''/a/./b/c.txt'' (Some ''|''))"
    by (intro reachable.intros)
  show ?thesis
    using toString_reconstructs [OF r] toString_reconstructs [OF r'] r
    by (simp add: FilePath_def resolvePath_def is_slash_def Let_def upDir_def toDir_def)
qed

text \<open>
  C5. \<^const>\<open>upDir\<close> is \<^const>\<open>toDir\<close> followed by dropping the last segment, which
  leaves an empty segment list empty; what it returns is the path so changed. Applied
  twice to the path built from \<^verbatim>\<open>/a/b/c/file.txt\<close>, it leaves a path that prints as
  \<^verbatim>\<open>/a/\<close>.
\<close>

theorem upDir_is_toDir_then_pop:
  "upDir this = (toDir this)\<lparr>path := butlast (path (toDir this))\<rparr> \<and>
   path (upDir this) = (if path this = [] then [] else butlast (path this)) \<and>
   toString (upDir (upDir (FilePath ''/a/b/c/file.txt'' None))) = ''/a/''"
  by (simp add: upDir_def toDir_def Let_def FilePath_def resolvePath_def is_slash_def
      toString_def)

text \<open>
  C8. For every input string, the empty one included, and every separator, construction
  raises nothing and yields a normalized path; \<^const>\<open>toDir\<close> and \<^const>\<open>upDir\<close>
  yield normalized paths again, and \<^const>\<open>toString\<close> yields a string that starts with
  the root. None of the four has a failing outcome on a string.
\<close>

theorem FilePath_never_fails:
  "\<exists>this. new_FilePath (Some absPath) separator = Inr this \<and> normalized this \<and>
      normalized (toDir this) \<and> normalized (upDir this) \<and>
      prefix (root this) (toString this) \<and> prefix (root this) (toString (toDir this)) \<and>
      prefix (root this) (toString (upDir this))"
proof -
  let ?fp = "FilePath absPath separator"
  have n: "normalized ?fp" by (rule normalized_FilePath)
  have "new_FilePath (Some absPath) separator = Inr ?fp" by (simp add: new_FilePath_def)
  moreover have "normalized (toDir ?fp)" using n by (rule normalized_toDir)
  moreover have "normalized (upDir ?fp)" using n by (rule normalized_upDir)
  moreover have "prefix (root ?fp) (toString ?fp)" by (simp add: toString_def)
  moreover have "prefix (root ?fp) (toString (toDir ?fp))"
    by (simp add: toString_def toDir_def)
  moreover have "prefix (root ?fp) (toString (upDir ?fp))"
    by (simp add: toString_def toDir_def upDir_def Let_def)
  ultimately show ?thesis using n by blast
qed

text \<open>
  C9. \<^const>\<open>fileExtension\<close> answers what follows the last dot of the file name, in
  lower case, and the whole name in lower case when it holds no dot:
  \<^verbatim>\<open>archive.tar.gz\<close> gives \<^verbatim>\<open>gz\<close>, \<^verbatim>\<open>README\<close> gives \<^verbatim>\<open>readme\<close>.
  Lower case is that of the program also beyond ASCII: a name \<^verbatim>\<open>X.\<close> followed by
  U+00C9, \<^verbatim>\<open>T\<close>, U+00C9 gives U+00E9, \<^verbatim>\<open>t\<close>, U+00E9, while U+00D7, U+00DF
  and U+00FF stay as they are.
\<close>

theorem fileExtension_after_last_dot:
  "(CHR ''.'' \<notin> set ext \<longrightarrow> fileExtension (base @ ''.'' @ ext) = toLowerCase ext) \<and>
   (CHR ''.'' \<notin> set filename \<longrightarrow> fileExtension filename = toLowerCase filename) \<and>
   fileExtension ''archive.tar.gz'' = ''gz'' \<and> fileExtension ''README'' = ''readme'' \<and>
   fileExtension [CHR ''X'', CHR ''.'', CHR 0xC9, CHR ''T'', CHR 0xC9]
     = [CHR 0xE9, CHR ''t'', CHR 0xE9] \<and>
   fileExtension [CHR 0xC0, CHR 0xD6, CHR 0xD7, CHR 0xD8, CHR 0xDE, CHR 0xDF, CHR 0xFF]
     = [CHR 0xE0, CHR 0xF6, CHR 0xD7, CHR 0xF8, CHR 0xFE, CHR 0xDF, CHR 0xFF]"
proof (intro conjI impI)
  assume "CHR ''.'' \<notin> set ext"
  then have "last (split_on (\<lambda>c. c = CHR ''.'') (base @ CHR ''.'' # ext)) = ext"
    by (intro last_split_on) auto
  then show "fileExtension (base @ ''.'' @ ext) = toLowerCase ext"
    by (simp add: fileExtension_def)
next
  assume "CHR ''.'' \<notin> set filename"
  then have "split_on (\<lambda>c. c = CHR ''.'') filename = [filename]"
    by (intro split_on_no_sep) auto
  then show "fileExtension filename = toLowerCase filename"
    by (simp add: fileExtension_def)
next
  show "fileExtension ''archive.tar.gz'' = ''gz''" by code_simp
next
  show "fileExtension ''README'' = ''readme''" by code_simp
next
  show "fileExtension [CHR ''X'', CHR ''.'', CHR 0xC9, CHR ''T'', CHR 0xC9]
      = [CHR 0xE9, CHR ''t'', CHR 0xE9]" by code_simp
next
  show "fileExtension [CHR 0xC0, CHR 0xD6, CHR 0xD7, CHR 0xD8, CHR 0xDE, CHR 0xDF, CHR 0xFF]
      = [CHR 0xE0, CHR 0xF6, CHR 0xD7, CHR 0xF8, CHR 0xFE, CHR 0xDF, CHR 0xFF]" by code_simp
qed

theorem fileExtension_after_last_dot_witness:
  "CHR ''.'' \<notin> set ''JPG'' \<and> fileExtension (''my.Photo'' @ ''.'' @ ''JPG'') = toLowerCase ''JPG'' \<and>
   toLowerCase ''JPG'' = ''jpg'' \<and>
   CHR ''.'' \<notin> set ''Makefile'' \<and> fileExtension ''Makefile'' = toLowerCase ''Makefile'' \<and>
   toLowerCase ''Makefile'' = ''makefile''"
proof -
  have a: "CHR ''.'' \<notin> set ''JPG''" and b: "CHR ''.'' \<notin> set ''Makefile''" by simp_all
  have c: "toLowerCase ''JPG'' = ''jpg''" and d: "toLowerCase ''Makefile'' = ''makefile''"
    by code_simp+
  show ?thesis
    using fileExtension_after_last_dot [of "''JPG''" "''my.Photo''" "''Makefile''"] a b c d
    by simp
qed

text \<open>
  C10, as the program has it. When the input holds a separator and what follows the last
  one is \<^verbatim>\<open>.\<close> or \<^verbatim>\<open>..\<close>, construction takes that marker as the file name, the
  resolution of the segments never sees it, and \<^const>\<open>toString\<close> ends with it:
  \<^verbatim>\<open>/a/b/..\<close> prints as \<^verbatim>\<open>/a/b/..\<close>.
\<close>

theorem trailing_dot_marker_kept:
  "is_slash c \<Longrightarrow> marker = ''.'' \<or> marker = ''..'' \<Longrightarrow>
     file (FilePath (front @ c # marker) separator) = marker \<and>
     suffix marker (toString (FilePath (front @ c # marker) separator)) \<and>
     toString (FilePath ''/a/b/..'' None) = ''/a/b/..''"
proof -
  assume c: "is_slash c" and m: "marker = ''.'' \<or> marker = ''..''"
  have ns: "\<forall>x\<in>set marker. \<not> is_slash x" using m by (auto simp: is_slash_def)
  have sp: "split_on is_slash (front @ c # marker) = split_on is_slash front @ [marker]"
    using c ns by (simp add: split_on_append_sep split_on_no_sep)
  obtain t ts where ts: "split_on is_slash front = t # ts"
    using split_on_not_Nil[of is_slash front] by (cases "split_on is_slash front") auto
  have f: "file (FilePath (front @ c # marker) separator) = marker"
    by (simp add: file_FilePath sp ts)
  moreover have "suffix marker (toString (FilePath (front @ c # marker) separator))"
    unfolding toString_def f by (simp add: suffix_def)
  moreover have "toString (FilePath ''/a/b/..'' None) = ''/a/b/..''"
    by (simp add: FilePath_def resolvePath_def is_slash_def Let_def toString_def)
  ultimately show ?thesis by simp
qed

theorem trailing_dot_marker_kept_witness:
  "is_slash CHR ''/'' \<and> file (FilePath (''/a/../b'' @ CHR ''/'' # ''.'') None) = ''.'' \<and>
   toString (FilePath (''/a/../b'' @ CHR ''/'' # ''.'') None) = ''/b/.''"
proof -
  have a: "is_slash CHR ''/''" by (simp add: is_slash_def)
  have b: "toString (FilePath (''/a/../b'' @ CHR ''/'' # ''.'') None) = ''/b/.''"
    by (simp add: FilePath_def resolvePath_def is_slash_def Let_def toString_def)
  show ?thesis
    using trailing_dot_marker_kept [OF a, of "''.''" "''/a/../b''" None] a b by simp
qed

text \<open>
  C10 as it was stated fails where the input is the marker alone: its last token is
  \<^verbatim>\<open>..\<close>, but that token is also the first and becomes the root; the file name stays
  empty and the path prints as \<^verbatim>\<open>../\<close>.
\<close>

theorem lone_dot_marker_becomes_root:
  "last (split_on is_slash ''..'') = ''..'' \<and> file (FilePath ''..'' None) = [] \<and>
   root (FilePath ''..'' None) = ''../'' \<and> toString (FilePath ''..'' None) = ''../''"
  by (simp add: FilePath_def resolvePath_def is_slash_def Let_def toString_def)

section \<open>Directory listing\<close>

text \<open>A call that returns, and a loop that ends, leave \<^verbatim>\<open>_path\<close> as they found it.\<close>

lemma pth_unchanged:
  "IO_ls fs recurse dir st = Inr (r, st') \<Longrightarrow> snd st' = snd st"
  "ls_loop fs recurse files st = Inr st'' \<Longrightarrow> snd st'' = snd st"
  by (induction fs recurse dir st and fs recurse files st arbitrary: r st' and st''
      rule: IO_ls_ls_loop.induct)
    (auto simp: IO_ls.simps Let_def split: if_splits sum.splits prod.splits)

text \<open>A reached directory is not the empty chain, and its status says directory.\<close>

lemma visits_stat:
  "visits fs recurse dir pth \<Longrightarrow> pth \<noteq> [] \<and> statSync fs (join pth ''/'') = Inr True"
  by (induction rule: visits.induct) (auto simp: join_snoc)

text \<open>The call on a directory, and one turn of the loop in each of its five branches.\<close>

lemma IO_ls_directory:
  "pth \<noteq> [] \<Longrightarrow> statSync fs d = Inr True \<Longrightarrow>
   IO_ls fs recurse d (a, pth) =
     (case readdirSync fs d of
        Inl e \<Rightarrow> Inl e
      | Inr files \<Rightarrow>
          (case ls_loop fs recurse files (a, pth) of
             Inl e \<Rightarrow> Inl e
           | Inr (a', p') \<Rightarrow> Inr (a', a', p')))"
  by (simp add: IO_ls.simps)

lemma ls_loop_hidden:
  "hidden f \<Longrightarrow> ls_loop fs recurse (f # files) (a, pth) = ls_loop fs recurse files (a, pth)"
  by simp

lemma ls_loop_stat_error:
  "\<not> hidden f \<Longrightarrow> statSync fs (join pth ''/'' @ ''/'' @ f) = Inl e \<Longrightarrow>
   ls_loop fs recurse (f # files) (a, pth) = Inl e"
  by simp

lemma ls_loop_plain_file:
  "\<not> hidden f \<Longrightarrow> statSync fs (join pth ''/'' @ ''/'' @ f) = Inr False \<Longrightarrow>
   ls_loop fs recurse (f # files) (a, pth) =
     ls_loop fs recurse files (a @ [replace (join pth ''/'' @ ''/'' @ f) ''//'' ''/''], pth)"
  by simp

lemma ls_loop_too_deep:
  "\<not> hidden f \<Longrightarrow> statSync fs (join pth ''/'' @ ''/'' @ f) = Inr True \<Longrightarrow>
   \<not> int (length pth) < recurse \<Longrightarrow>
   ls_loop fs recurse (f # files) (a, pth) = ls_loop fs recurse files (a, pth)"
  by (simp add: Let_def)

lemma ls_loop_descend:
  "\<not> hidden f \<Longrightarrow> statSync fs (join pth ''/'' @ ''/'' @ f) = Inr True \<Longrightarrow>
   int (length pth) < recurse \<Longrightarrow>
   ls_loop fs recurse (f # files) (a, pth) =
     (case IO_ls fs recurse (join (pth @ [f]) ''/'') (a, pth @ [f]) of
        Inl e \<Rightarrow> Inl e
      | Inr (r, a2, p2) \<Rightarrow> ls_loop fs recurse files (a2, pth))"
  by (auto simp: Let_def dest: pth_unchanged(1) split: sum.splits)

text \<open>
  What a traversal answers is sound. Started in a reached directory, with only listed
  paths collected so far, it either fails with an error the file system raised at a
  reached directory, or returns with only listed paths collected. The proof follows the
  recursion of the program.
\<close>

lemma traversal_sound:
  "visits fs recurse dir (snd st) \<Longrightarrow> d = join (snd st) ''/'' \<Longrightarrow>
     \<forall>x\<in>set (fst st). listed fs recurse dir x \<Longrightarrow>
     sound_outcome fs recurse dir (map_sum (\<lambda>e. e) (\<lambda>(r, a, p). a) (IO_ls fs recurse d st))"
  "visits fs recurse dir (snd st) \<Longrightarrow> readdirSync fs (join (snd st) ''/'') = Inr every \<Longrightarrow>
     set files \<subseteq> set every \<Longrightarrow> \<forall>x\<in>set (fst st). listed fs recurse dir x \<Longrightarrow>
     sound_outcome fs recurse dir (map_sum (\<lambda>e. e) fst (ls_loop fs recurse files st))"
proof (induction fs recurse d st and fs recurse files st arbitrary: and every
    rule: IO_ls_ls_loop.induct)
  case (1 fs recurse d allFiles pth)
  have v: "visits fs recurse dir pth" using "1.prems"(1) by simp
  have ne: "length pth \<noteq> 0" and st: "statSync fs d = Inr True"
    using visits_stat[OF v] "1.prems"(2) by simp_all
  show ?case
  proof (cases "readdirSync fs d")
    case (Inl e)
    then have "raises_at fs pth e" using "1.prems"(2) by (simp add: raises_at_def)
    then show ?thesis
      using v Inl ne st by (auto simp: IO_ls_directory sound_outcome_def)
  next
    case (Inr files)
    have nn: "\<not> \<not> True" by simp
    have "sound_outcome fs recurse dir
            (map_sum (\<lambda>e. e) fst (ls_loop fs recurse files (allFiles, pth)))"
      using "1.IH"[OF ne st nn Inr, of files] "1.prems" Inr by simp
    then show ?thesis
      using Inr ne st by (auto simp: IO_ls_directory sound_outcome_def split: sum.splits)
  qed
next
  case (2 fs recurse st)
  then show ?case by (simp add: sound_outcome_def)
next
  case (3 fs recurse f files allFiles pth)
  have v: "visits fs recurse dir pth" using "3.prems"(1) by simp
  have rd: "readdirSync fs (join pth ''/'') = Inr every" using "3.prems"(2) by simp
  have sub: "set files \<subseteq> set every" and fin: "f \<in> set every" using "3.prems"(3) by auto
  have li: "\<forall>x\<in>set allFiles. listed fs recurse dir x" using "3.prems"(4) by simp
  show ?case
  proof (cases "hidden f")
    case True
    then show ?thesis
      using "3.IH"(1)[OF True, of every] "3.prems" sub
      by (simp del: ls_loop.simps add: ls_loop_hidden)
  next
    case nh: False
    show ?thesis
    proof (cases "statSync fs (join pth ''/'' @ ''/'' @ f)")
      case (Inl e)
      have "raises_at fs pth e" using rd fin nh Inl by (auto simp: raises_at_def)
      then show ?thesis
        using v
        by (auto simp del: ls_loop.simps simp: ls_loop_stat_error[OF nh Inl] sound_outcome_def)
    next
      case (Inr isDir)
      show ?thesis
      proof (cases isDir)
        case False
        then have pf: "statSync fs (join pth ''/'' @ ''/'' @ f) = Inr False" using Inr by simp
        have "listed fs recurse dir (replace (join pth ''/'' @ ''/'' @ f) ''//'' ''/'')"
          unfolding listed_def using v rd fin nh pf by blast
        then have "\<forall>x\<in>set (fst (allFiles @ [replace (join pth ''/'' @ ''/'' @ f) ''//'' ''/''],
                                 pth)). listed fs recurse dir x"
          using li by simp
        then show ?thesis
          using "3.IH"(5)[OF nh Inr False, of every] v rd sub
          by (simp del: ls_loop.simps add: ls_loop_plain_file[OF nh pf])
      next
        case True
        then have dr: "statSync fs (join pth ''/'' @ ''/'' @ f) = Inr True" using Inr by simp
        show ?thesis
        proof (cases "int (length pth) < recurse")
          case deep: False
          then have c: "\<not> int (length (pth @ [f])) - 1 < recurse" by simp
          show ?thesis
            using "3.IH"(4)[OF nh Inr True refl c, of every] v rd sub li
            by (simp del: ls_loop.simps add: ls_loop_too_deep[OF nh dr deep])
        next
          case ok: True
          then have c: "int (length (pth @ [f])) - 1 < recurse" by simp
          have v': "visits fs recurse dir (pth @ [f])"
            using visits.descend[OF v rd fin nh dr ok] .
          have s1: "sound_outcome fs recurse dir
                      (map_sum (\<lambda>e. e) (\<lambda>(r, a, p). a)
                         (IO_ls fs recurse (join (pth @ [f]) ''/'') (allFiles, pth @ [f])))"
            using "3.IH"(2)[OF nh Inr True refl c] v' li by simp
          show ?thesis
          proof (cases "IO_ls fs recurse (join (pth @ [f]) ''/'') (allFiles, pth @ [f])")
            case (Inl e)
            then show ?thesis
              using s1 by (simp del: ls_loop.simps add: ls_loop_descend[OF nh dr ok])
          next
            case (Inr res)
            obtain r2 a2 p2 where res: "res = (r2, a2, p2)" by (cases res) auto
            have p2: "p2 = pth @ [f]"
              using pth_unchanged(1)[of fs recurse _ "(allFiles, pth @ [f])" r2 "(a2, p2)"]
                Inr res by simp
            have l2: "\<forall>x\<in>set a2. listed fs recurse dir x"
              using s1 Inr res by (simp add: sound_outcome_def)
            have "sound_outcome fs recurse dir
                    (map_sum (\<lambda>e. e) fst (ls_loop fs recurse files (a2, butlast p2)))"
              using "3.IH"(3)[OF nh \<open>statSync fs (join pth ''/'' @ ''/'' @ f) = Inr isDir\<close> True
                  refl c Inr[unfolded res] refl refl, of every] v rd sub l2 p2 by simp
            then show ?thesis
              using Inr res p2 by (simp del: ls_loop.simps add: ls_loop_descend[OF nh dr ok])
          qed
        qed
      qed
    qed
  qed
qed

text \<open>
  The other way round: a traversal that returns has asked the file system about every
  entry, not hidden, of every reached directory, and each of these calls has returned.
\<close>

lemma ls_loop_tail:
  assumes "ls_loop fs recurse (g # files) (a, pth) = Inr st"
  shows "\<exists>a'. ls_loop fs recurse files (a', pth) = Inr st"
proof (cases "hidden g")
  case True
  then show ?thesis using assms by (auto simp del: ls_loop.simps simp: ls_loop_hidden)
next
  case nh: False
  show ?thesis
  proof (cases "statSync fs (join pth ''/'' @ ''/'' @ g)")
    case (Inl e)
    then show ?thesis using assms nh by (simp del: ls_loop.simps add: ls_loop_stat_error)
  next
    case (Inr isDir)
    show ?thesis
    proof (cases isDir)
      case False
      then show ?thesis
        using assms nh Inr by (auto simp del: ls_loop.simps simp: ls_loop_plain_file)
    next
      case True
      then have dr: "statSync fs (join pth ''/'' @ ''/'' @ g) = Inr True" using Inr by simp
      show ?thesis
      proof (cases "int (length pth) < recurse")
        case False
        then show ?thesis
          using assms by (auto simp del: ls_loop.simps simp: ls_loop_too_deep[OF nh dr])
      next
        case True
        then show ?thesis
          using assms
          by (auto simp del: ls_loop.simps simp: ls_loop_descend[OF nh dr] split: sum.splits)
      qed
    qed
  qed
qed

lemma ls_loop_head:
  assumes "ls_loop fs recurse (g # files) (a, pth) = Inr st" and nh: "\<not> hidden g"
  shows "\<exists>b. statSync fs (join pth ''/'' @ ''/'' @ g) = Inr b \<and>
           (b \<longrightarrow> int (length pth) < recurse \<longrightarrow>
              (\<exists>res. IO_ls fs recurse (join (pth @ [g]) ''/'') (a, pth @ [g]) = Inr res))"
proof (cases "statSync fs (join pth ''/'' @ ''/'' @ g)")
  case (Inl e)
  then show ?thesis using assms by (simp del: ls_loop.simps add: ls_loop_stat_error)
next
  case (Inr isDir)
  show ?thesis
  proof (cases "isDir \<and> int (length pth) < recurse")
    case False
    then show ?thesis using Inr by auto
  next
    case True
    then have dr: "statSync fs (join pth ''/'' @ ''/'' @ g) = Inr True"
      and ok: "int (length pth) < recurse" using Inr by simp_all
    show ?thesis
      using assms(1) dr
      by (auto simp del: ls_loop.simps simp: ls_loop_descend[OF nh dr ok] split: sum.splits)
  qed
qed

lemma ls_loop_every_entry:
  "ls_loop fs recurse files (a, pth) = Inr st \<Longrightarrow> f \<in> set files \<Longrightarrow> \<not> hidden f \<Longrightarrow>
   \<exists>b. statSync fs (join pth ''/'' @ ''/'' @ f) = Inr b \<and>
       (b \<longrightarrow> int (length pth) < recurse \<longrightarrow>
          (\<exists>a' res. IO_ls fs recurse (join (pth @ [f]) ''/'') (a', pth @ [f]) = Inr res))"
proof (induction files arbitrary: a)
  case Nil
  then show ?case by simp
next
  case (Cons g files)
  show ?case
  proof (cases "f = g")
    case True
    then show ?thesis using ls_loop_head[OF Cons.prems(1)] Cons.prems(3) by blast
  next
    case False
    then have "f \<in> set files" using Cons.prems(2) by simp
    moreover obtain a' where "ls_loop fs recurse files (a', pth) = Inr st"
      using ls_loop_tail[OF Cons.prems(1)] by blast
    ultimately show ?thesis using Cons.IH Cons.prems(3) by blast
  qed
qed

lemma visited_calls_return:
  "visits fs recurse dir pth \<Longrightarrow> IO_ls fs recurse dir (a0, [dir]) = Inr res0 \<Longrightarrow>
   \<exists>a res. IO_ls fs recurse (join pth ''/'') (a, pth) = Inr res"
proof (induction rule: visits.induct)
  case start
  then have "IO_ls fs recurse (join [dir] ''/'') (a0, [dir]) = Inr res0" by simp
  then show ?case by blast
next
  case (descend pth files f)
  then obtain a res where c: "IO_ls fs recurse (join pth ''/'') (a, pth) = Inr res" by blast
  have ne: "pth \<noteq> []" and st: "statSync fs (join pth ''/'') = Inr True"
    using visits_stat[OF descend.hyps(1)] by simp_all
  obtain st' where "ls_loop fs recurse files (a, pth) = Inr st'"
    using c descend.hyps(2) by (auto simp: IO_ls_directory[OF ne st] split: sum.splits)
  then show ?case
    using ls_loop_every_entry[of fs recurse files a pth st' f] descend.hyps by auto
qed

lemma raise_reaches_caller:
  assumes "visits fs recurse dir pth" and "raises_at fs pth e"
  shows "\<exists>e'. IO_ls fs recurse dir (a0, [dir]) = Inl e'"
proof (rule ccontr)
  assume "\<not> ?thesis"
  then obtain res0 where "IO_ls fs recurse dir (a0, [dir]) = Inr res0"
    by (cases "IO_ls fs recurse dir (a0, [dir])") auto
  then obtain a res where c: "IO_ls fs recurse (join pth ''/'') (a, pth) = Inr res"
    using visited_calls_return[OF assms(1)] by blast
  have ne: "pth \<noteq> []" and st: "statSync fs (join pth ''/'') = Inr True"
    using visits_stat[OF assms(1)] by simp_all
  obtain files st' where rd: "readdirSync fs (join pth ''/'') = Inr files"
    and l: "ls_loop fs recurse files (a, pth) = Inr st'"
    using c by (auto simp: IO_ls_directory[OF ne st] split: sum.splits)
  then obtain f where f: "f \<in> set files" "\<not> hidden f"
    and e: "statSync fs (join pth ''/'' @ ''/'' @ f) = Inl e"
    using assms(2) by (auto simp: raises_at_def)
  show False using ls_loop_every_entry[OF l f] e by auto
qed

text \<open>
  C6. When the start path exists and is a plain file, not a directory, the listing is
  the one-element list of that path, whatever the depth argument: any number, zero and
  negative ones included, or none at all.
\<close>

theorem ls_of_plain_file:
  "statSync fs dir = Inr False \<Longrightarrow> ls fs dir recurse = Inr [dir]"
  by (simp add: ls_def IO_ls.simps)

theorem ls_of_plain_file_witness:
  "statSync (tree_fs [] []) ''root/x.js'' = Inr False \<and>
   ls (tree_fs [] []) ''root/x.js'' (Some 0) = Inr [''root/x.js''] \<and>
   ls (tree_fs [] []) ''root/x.js'' None = Inr [''root/x.js'']"
proof -
  have s: "statSync (tree_fs [] []) ''root/x.js'' = Inr False" by (simp add: tree_fs_def)
  show ?thesis
    using ls_of_plain_file [OF s, of "Some 0"] ls_of_plain_file [OF s, of None] s by simp
qed

text \<open>A directory of two entries is read in one of two orders.\<close>

lemma two_orders:
  assumes "distinct xs" "set xs = {a, b}" "a \<noteq> b"
  shows "xs = [a, b] \<or> xs = [b, a]"
proof -
  have "length xs = 2" using assms distinct_card[of xs] by simp
  then obtain x y where xs: "xs = [x, y]" by (auto simp: length_Suc_conv numeral_2_eq_2)
  with assms show ?thesis by (auto simp: doubleton_eq_iff)
qed

text \<open>The listing of the example tree, for each order and each depth.\<close>

lemma tree_fs_shallow:
  "\<not> 1 < default_recurse recurse \<Longrightarrow>
     ls (tree_fs [''x.js'', ''sub''] subEntries) ''root'' recurse = Inr [''root/x.js''] \<and>
     ls (tree_fs [''sub'', ''x.js''] subEntries) ''root'' recurse = Inr [''root/x.js'']"
  by (simp add: ls_def IO_ls.simps tree_fs_def Let_def)

lemma tree_fs_deep_a:
  "1 < default_recurse recurse \<Longrightarrow>
     ls (tree_fs [''x.js'', ''sub''] [''y.js'', ''.hidden.js'']) ''root'' recurse
       = Inr [''root/x.js'', ''root/sub/y.js'']"
  by (simp add: ls_def IO_ls.simps tree_fs_def Let_def)

lemma tree_fs_deep_b:
  "1 < default_recurse recurse \<Longrightarrow>
     ls (tree_fs [''x.js'', ''sub''] [''.hidden.js'', ''y.js'']) ''root'' recurse
       = Inr [''root/x.js'', ''root/sub/y.js'']"
  by (simp add: ls_def IO_ls.simps tree_fs_def Let_def)

lemma tree_fs_deep_c:
  "1 < default_recurse recurse \<Longrightarrow>
     ls (tree_fs [''sub'', ''x.js''] [''y.js'', ''.hidden.js'']) ''root'' recurse
       = Inr [''root/sub/y.js'', ''root/x.js'']"
  by (simp add: ls_def IO_ls.simps tree_fs_def Let_def)

lemma tree_fs_deep_d:
  "1 < default_recurse recurse \<Longrightarrow>
     ls (tree_fs [''sub'', ''x.js''] [''.hidden.js'', ''y.js'']) ''root'' recurse
       = Inr [''root/sub/y.js'', ''root/x.js'']"
  by (simp add: ls_def IO_ls.simps tree_fs_def Let_def)

lemma tree_fs_ls:
  assumes ro: "rootEntries = [''x.js'', ''sub''] \<or> rootEntries = [''sub'', ''x.js'']"
    and so: "subEntries = [''y.js'', ''.hidden.js''] \<or> subEntries = [''.hidden.js'', ''y.js'']"
  shows "\<exists>out. ls (tree_fs rootEntries subEntries) ''root'' recurse = Inr out \<and>
           set out = (if 1 < default_recurse recurse then {''root/x.js'', ''root/sub/y.js''}
                      else {''root/x.js''})"
proof (cases "1 < default_recurse recurse")
  case True
  have "ls (tree_fs rootEntries subEntries) ''root'' recurse
          = Inr [''root/x.js'', ''root/sub/y.js''] \<or>
        ls (tree_fs rootEntries subEntries) ''root'' recurse
          = Inr [''root/sub/y.js'', ''root/x.js'']"
    using ro so tree_fs_deep_a[OF True] tree_fs_deep_b[OF True] tree_fs_deep_c[OF True]
      tree_fs_deep_d[OF True] by blast
  then show ?thesis using True by auto
next
  case False
  have "ls (tree_fs rootEntries subEntries) ''root'' recurse = Inr [''root/x.js'']"
    using ro tree_fs_shallow[OF False, of subEntries] by blast
  then show ?thesis using False by simp
qed

lemma visits_not_hidden: "visits fs recurse dir pth \<Longrightarrow> \<forall>n\<in>set (tl pth). \<not> hidden n"
proof (induction rule: visits.induct)
  case start
  then show ?case by simp
next
  case (descend pth files f)
  have "pth \<noteq> []" using visits_stat[OF descend.hyps(1)] by simp
  then have "tl (pth @ [f]) = tl pth @ [f]" by simp
  then show ?case using descend by simp
qed

lemma ls_listed:
  assumes "statSync fs dir = Inr True" "ls fs dir recurse = Inr out" "x \<in> set out"
  shows "listed fs (default_recurse recurse) dir x"
proof -
  have v: "visits fs (default_recurse recurse) dir [dir]" using assms(1) by (rule visits.start)
  obtain r a p where c: "IO_ls fs (default_recurse recurse) dir ([], [dir]) = Inr (r, a, p)" and "out = r"
    using assms(2) by (auto simp: ls_def split: sum.splits)
  moreover have "r = a"
    using c assms(1) by (auto simp: IO_ls_directory split: sum.splits)
  ultimately show ?thesis
    using traversal_sound(1)[of fs "default_recurse recurse" dir "([], [dir])" dir] v assms(3)
    by (simp add: sound_outcome_def)
qed

text \<open>
  C1. For the tree \<^verbatim>\<open>root/{x.js, sub/{y.js, .hidden.js}}\<close>, in whatever order the
  two directories are read: listing \<^verbatim>\<open>root\<close> to depth 1 gives exactly the set
  \<^verbatim>\<open>{root/x.js}\<close> (so \<^verbatim>\<open>sub\<close> is not in it), to depth 2 exactly
  \<^verbatim>\<open>{root/x.js, root/sub/y.js}\<close>, and to no depth does the result hold
  \<^verbatim>\<open>root/sub/.hidden.js\<close>. On any file system, every path that the listing of a
  directory returns is a plain file that is not hidden, inside a directory reached from
  the start, and no name on the way down to a reached directory is hidden.
\<close>

theorem ls_example_tree:
  "(distinct rootEntries \<and> set rootEntries = {''x.js'', ''sub''} \<and>
    distinct subEntries \<and> set subEntries = {''y.js'', ''.hidden.js''} \<longrightarrow>
      (\<exists>out. ls (tree_fs rootEntries subEntries) ''root'' (Some 1) = Inr out \<and>
         set out = {''root/x.js''}) \<and>
      (\<exists>out. ls (tree_fs rootEntries subEntries) ''root'' (Some 2) = Inr out \<and>
         set out = {''root/x.js'', ''root/sub/y.js''}) \<and>
      (\<exists>out. ls (tree_fs rootEntries subEntries) ''root'' recurse = Inr out \<and>
         ''root/sub/.hidden.js'' \<notin> set out)) \<and>
   (statSync fs dir = Inr True \<and> ls fs dir depth = Inr out \<and> x \<in> set out \<longrightarrow>
      listed fs (default_recurse depth) dir x) \<and>
   (visits fs r dir pth \<longrightarrow> (\<forall>n\<in>set (tl pth). \<not> hidden n))"
proof -
  have tree: "distinct rootEntries \<and> set rootEntries = {''x.js'', ''sub''} \<and>
    distinct subEntries \<and> set subEntries = {''y.js'', ''.hidden.js''} \<longrightarrow>
      (\<exists>out. ls (tree_fs rootEntries subEntries) ''root'' (Some 1) = Inr out \<and>
         set out = {''root/x.js''}) \<and>
      (\<exists>out. ls (tree_fs rootEntries subEntries) ''root'' (Some 2) = Inr out \<and>
         set out = {''root/x.js'', ''root/sub/y.js''}) \<and>
      (\<exists>out. ls (tree_fs rootEntries subEntries) ''root'' recurse = Inr out \<and>
         ''root/sub/.hidden.js'' \<notin> set out)"
  proof
    assume a: "distinct rootEntries \<and> set rootEntries = {''x.js'', ''sub''} \<and>
      distinct subEntries \<and> set subEntries = {''y.js'', ''.hidden.js''}"
    have ro: "rootEntries = [''x.js'', ''sub''] \<or> rootEntries = [''sub'', ''x.js'']"
      using a by (intro two_orders) simp_all
    have so: "subEntries = [''y.js'', ''.hidden.js''] \<or> subEntries = [''.hidden.js'', ''y.js'']"
      using a by (intro two_orders) simp_all
    have one: "\<not> 1 < default_recurse (Some 1)" and two: "1 < default_recurse (Some 2)" by (simp_all add: default_recurse_def)
    have "\<exists>out. ls (tree_fs rootEntries subEntries) ''root'' (Some 1) = Inr out \<and>
           set out = {''root/x.js''}"
      using tree_fs_ls[OF ro so, of "Some 1"] one by simp
    moreover have "\<exists>out. ls (tree_fs rootEntries subEntries) ''root'' (Some 2) = Inr out \<and>
           set out = {''root/x.js'', ''root/sub/y.js''}"
      using tree_fs_ls[OF ro so, of "Some 2"] two by simp
    moreover have "\<exists>out. ls (tree_fs rootEntries subEntries) ''root'' recurse = Inr out \<and>
           ''root/sub/.hidden.js'' \<notin> set out"
    proof -
      obtain out where o: "ls (tree_fs rootEntries subEntries) ''root'' recurse = Inr out"
        and s: "set out = (if 1 < default_recurse recurse then {''root/x.js'', ''root/sub/y.js''}
                            else {''root/x.js''})"
        using tree_fs_ls[OF ro so, of recurse] by blast
      have "''root/sub/.hidden.js'' \<notin> set out" unfolding s by simp
      then show ?thesis using o by blast
    qed
    ultimately show "(\<exists>out. ls (tree_fs rootEntries subEntries) ''root'' (Some 1) = Inr out \<and>
         set out = {''root/x.js''}) \<and>
      (\<exists>out. ls (tree_fs rootEntries subEntries) ''root'' (Some 2) = Inr out \<and>
         set out = {''root/x.js'', ''root/sub/y.js''}) \<and>
      (\<exists>out. ls (tree_fs rootEntries subEntries) ''root'' recurse = Inr out \<and>
         ''root/sub/.hidden.js'' \<notin> set out)" by (intro conjI)
  qed
  have gen: "statSync fs dir = Inr True \<and> ls fs dir depth = Inr out \<and> x \<in> set out \<longrightarrow>
      listed fs (default_recurse depth) dir x"
    using ls_listed by blast
  have vis: "visits fs r dir pth \<longrightarrow> (\<forall>n\<in>set (tl pth). \<not> hidden n)"
    using visits_not_hidden by blast
  show ?thesis by (rule conjI[OF tree conjI[OF gen vis]])
qed

theorem ls_example_tree_witness:
  "(\<exists>out. ls (tree_fs [''sub'', ''x.js''] [''.hidden.js'', ''y.js'']) ''root'' (Some 1) = Inr out \<and>
      set out = {''root/x.js''}) \<and>
   (\<exists>out. ls (tree_fs [''sub'', ''x.js''] [''.hidden.js'', ''y.js'']) ''root'' (Some 2) = Inr out \<and>
      set out = {''root/x.js'', ''root/sub/y.js''}) \<and>
   (\<exists>out. ls (tree_fs [''sub'', ''x.js''] [''.hidden.js'', ''y.js'']) ''root'' None = Inr out \<and>
      ''root/sub/.hidden.js'' \<notin> set out) \<and>
   listed (tree_fs [''sub'', ''x.js''] [''.hidden.js'', ''y.js'']) 2 ''root'' ''root/sub/y.js'' \<and>
   visits (tree_fs [''sub'', ''x.js''] [''.hidden.js'', ''y.js'']) 2 ''root'' [''root'', ''sub''] \<and>
   \<not> hidden ''sub''"
proof -
  let ?fs = "tree_fs [''sub'', ''x.js''] [''.hidden.js'', ''y.js'']"
  have d: "distinct [''sub'', ''x.js''] \<and> set [''sub'', ''x.js''] = {''x.js'', ''sub''} \<and>
      distinct [''.hidden.js'', ''y.js''] \<and> set [''.hidden.js'', ''y.js''] = {''y.js'', ''.hidden.js''}"
    by auto
  have s: "statSync ?fs ''root'' = Inr True" by (simp add: tree_fs_def)
  have l: "ls ?fs ''root'' (Some 2) = Inr [''root/sub/y.js'', ''root/x.js'']"
    by (rule tree_fs_deep_d) (simp add: default_recurse_def)
  have v: "visits ?fs 2 ''root'' [''root'', ''sub'']"
    using visits.descend [OF visits.start [OF s], of "[''sub'', ''x.js'']" "''sub''" 2]
    by (simp add: tree_fs_def)
  have g: "statSync ?fs ''root'' = Inr True \<and>
      ls ?fs ''root'' (Some 2) = Inr [''root/sub/y.js'', ''root/x.js''] \<and>
      ''root/sub/y.js'' \<in> set [''root/sub/y.js'', ''root/x.js'']"
    using s l by simp
  note t = ls_example_tree [where rootEntries = "[''sub'', ''x.js'']"
      and subEntries = "[''.hidden.js'', ''y.js'']" and recurse = None and fs = ?fs
      and dir = "''root''" and depth = "Some 2" and out = "[''root/sub/y.js'', ''root/x.js'']"
      and x = "''root/sub/y.js''" and r = 2 and pth = "[''root'', ''sub'']"]
  have "listed ?fs 2 ''root'' ''root/sub/y.js''"
    using t g by (simp add: default_recurse_def)
  moreover have "\<not> hidden ''sub''" by simp
  ultimately show ?thesis using t d v by blast
qed

lemma dangling_visits: "visits dangling_fs r ''root'' pth \<Longrightarrow> pth = [''root'']"
  by (induction rule: visits.induct) (auto simp: dangling_fs_def)

text \<open>
  C7, as the program has it. The listing fails exactly when a call to the file system
  that the traversal makes fails: the status of the start path, the reading of a
  directory reached within the depth bound (the start directory is one), or the status
  of an entry, not hidden, of such a directory. The error it fails with is the one the
  file system raised at such a place, and a failing listing returns no list.
\<close>

theorem ls_fails_iff_a_filesystem_call_fails:
  "((\<exists>e. ls fs dir recurse = Inl e) \<longleftrightarrow>
      (\<exists>e. statSync fs dir = Inl e) \<or>
      (\<exists>pth e. visits fs (default_recurse recurse) dir pth \<and> raises_at fs pth e)) \<and>
   (ls fs dir recurse = Inl e \<longrightarrow>
      statSync fs dir = Inl e \<or>
      (\<exists>pth. visits fs (default_recurse recurse) dir pth \<and> raises_at fs pth e))"
proof -
  let ?r = "default_recurse recurse"
  have raised: "statSync fs dir = Inl e' \<or> (\<exists>pth. visits fs ?r dir pth \<and> raises_at fs pth e')"
    if f: "ls fs dir recurse = Inl e'" for e'
  proof -
    have c: "IO_ls fs ?r dir ([], [dir]) = Inl e'"
      using f by (auto simp: ls_def split: sum.splits)
    show ?thesis
    proof (cases "statSync fs dir")
      case (Inl e'')
      then show ?thesis using c by (simp add: IO_ls.simps)
    next
      case (Inr isDir)
      then have isDir using c by (auto simp: IO_ls.simps split: if_splits)
      then have "visits fs ?r dir [dir]" using Inr by (auto intro: visits.start)
      then show ?thesis
        using traversal_sound(1)[of fs ?r dir "([], [dir])" dir] c
        by (simp add: sound_outcome_def)
    qed
  qed
  have fails: "\<exists>e. ls fs dir recurse = Inl e"
    if "(\<exists>e. statSync fs dir = Inl e) \<or> (\<exists>pth e. visits fs ?r dir pth \<and> raises_at fs pth e)"
    using that
  proof
    assume "\<exists>e. statSync fs dir = Inl e"
    then show ?thesis by (auto simp: ls_def IO_ls.simps)
  next
    assume "\<exists>pth e. visits fs ?r dir pth \<and> raises_at fs pth e"
    then obtain e' where "IO_ls fs ?r dir ([], [dir]) = Inl e'"
      using raise_reaches_caller by blast
    then show ?thesis by (auto simp: ls_def)
  qed
  have "(\<exists>e. ls fs dir recurse = Inl e) \<longleftrightarrow>
      (\<exists>e. statSync fs dir = Inl e) \<or> (\<exists>pth e. visits fs ?r dir pth \<and> raises_at fs pth e)"
    using raised fails by blast
  then show ?thesis using raised by blast
qed

theorem ls_fails_iff_a_filesystem_call_fails_witness:
  "ls dangling_fs ''root'' None = Inl ENOENT \<and>
   (statSync dangling_fs ''root'' = Inl ENOENT \<or>
    (\<exists>pth. visits dangling_fs (default_recurse None) ''root'' pth \<and>
       raises_at dangling_fs pth ENOENT)) \<and>
   visits dangling_fs (default_recurse None) ''root'' [''root''] \<and>
   raises_at dangling_fs [''root''] ENOENT \<and>
   (\<exists>e. ls dangling_fs ''root'' None = Inl e) \<and>
   ls (tree_fs [''sub'', ''x.js''] [''.hidden.js'', ''y.js'']) ''root'' (Some 2)
     = Inr [''root/sub/y.js'', ''root/x.js''] \<and>
   \<not> (\<exists>pth e. visits (tree_fs [''sub'', ''x.js''] [''.hidden.js'', ''y.js''])
                  (default_recurse (Some 2)) ''root'' pth \<and>
                raises_at (tree_fs [''sub'', ''x.js''] [''.hidden.js'', ''y.js'']) pth e)"
proof -
  have l: "ls dangling_fs ''root'' None = Inl ENOENT"
    by (simp add: ls_def default_recurse_def IO_ls.simps dangling_fs_def)
  have v: "visits dangling_fs (default_recurse None) ''root'' [''root'']"
    by (rule visits.start) (simp add: dangling_fs_def)
  have r: "raises_at dangling_fs [''root''] ENOENT"
    by (simp add: raises_at_def dangling_fs_def)
  have t: "ls (tree_fs [''sub'', ''x.js''] [''.hidden.js'', ''y.js'']) ''root'' (Some 2)
      = Inr [''root/sub/y.js'', ''root/x.js'']"
    by (rule tree_fs_deep_d) (simp add: default_recurse_def)
  have "\<not> (\<exists>pth e. visits (tree_fs [''sub'', ''x.js''] [''.hidden.js'', ''y.js''])
                  (default_recurse (Some 2)) ''root'' pth \<and>
                raises_at (tree_fs [''sub'', ''x.js''] [''.hidden.js'', ''y.js'']) pth e)"
    using ls_fails_iff_a_filesystem_call_fails
      [of "tree_fs [''sub'', ''x.js''] [''.hidden.js'', ''y.js'']" "''root''" "Some 2"] t
    by auto
  then show ?thesis
    using ls_fails_iff_a_filesystem_call_fails [of dangling_fs "''root''" None ENOENT] l v r t
    by blast
qed

text \<open>
  C7 as it was stated names two causes only, a start path that does not exist and a
  directory that cannot be read. In \<^const>\<open>dangling_fs\<close> the start path exists and
  the one directory reached is read without error, yet the listing fails: the status of
  the entry it holds cannot be had.
\<close>

theorem ls_fails_on_dangling_entry:
  "ls dangling_fs ''root'' (Some 1) = Inl ENOENT \<and>
   statSync dangling_fs ''root'' = Inr True \<and>
   readdirSync dangling_fs ''root'' = Inr [''gone''] \<and>
   \<not> (\<exists>pth e. visits dangling_fs (default_recurse (Some 1)) ''root'' pth \<and>
          readdirSync dangling_fs (join pth ''/'') = Inl e)"
proof -
  have "ls dangling_fs ''root'' (Some 1) = Inl ENOENT"
    by (simp add: ls_def default_recurse_def IO_ls.simps dangling_fs_def)
  moreover have "statSync dangling_fs ''root'' = Inr True"
    and "readdirSync dangling_fs ''root'' = Inr [''gone'']"
    by (simp_all add: dangling_fs_def)
  moreover have "\<not> (\<exists>pth e. visits dangling_fs (default_recurse (Some 1)) ''root'' pth \<and>
          readdirSync dangling_fs (join pth ''/'') = Inl e)"
  proof
    assume "\<exists>pth e. visits dangling_fs (default_recurse (Some 1)) ''root'' pth \<and>
          readdirSync dangling_fs (join pth ''/'') = Inl e"
    then obtain pth e where v: "visits dangling_fs (default_recurse (Some 1)) ''root'' pth"
      and rd: "readdirSync dangling_fs (join pth ''/'') = Inl e" by blast
    have "pth = [''root'']" using v by (rule dangling_visits)
    then show False using rd by (simp add: dangling_fs_def)
  qed
  ultimately show ?thesis by simp
qed

end
